theory Spec2Isabelle
  imports Main "HOL-Library.Sublist"
begin

section \<open>Characters and character classes\<close>

text \<open>
  The source works on JavaScript strings. They are modelled as \<^typ>\<open>string\<close>, a list of
  characters read as the code units 0 to 255; \<open>length\<close> counts code units, as
  \<^verbatim>\<open>sql.length\<close> does. Code units above 255 are outside the model.

  \<^verbatim>\<open>\s\<close> of a JavaScript regular expression (and the set \<^verbatim>\<open>trim()\<close> strips) is, within
  this range: tab, line feed, vertical tab, form feed, carriage return, space and the
  no-break space.
\<close>

definition isSpace :: "char \<Rightarrow> bool" where
  "isSpace c = (c \<in> set [CHR 0x09, CHR 0x0A, CHR 0x0B, CHR 0x0C, CHR 0x0D, CHR 0x20, CHR 0xA0])"

text \<open>\<^verbatim>\<open>\w\<close> without the unicode flag: \<^verbatim>\<open>[A-Za-z0-9_]\<close>.\<close>

definition isWordChar :: "char \<Rightarrow> bool" where
  "isWordChar c =
     (c \<in> set ''ABCDEFGHIJKLMNOPQRSTUVWXYZabcdefghijklmnopqrstuvwxyz0123456789_'')"

text \<open>The character class \<^verbatim>\<open>[\w@#]\<close> of a bare identifier segment.\<close>

definition isIdentChar :: "char \<Rightarrow> bool" where
  "isIdentChar c = (isWordChar c \<or> c = CHR ''@'' \<or> c = CHR ''#'')"

text \<open>
  Upper-casing of one code unit, as \<^verbatim>\<open>toUpperCase\<close> and the canonicalisation of a
  case-insensitive regular expression (flag \<^verbatim>\<open>i\<close>, no flag \<^verbatim>\<open>u\<close>) do it within the range:
  the letters a to z, and the Latin-1 letters 224 to 254 except the division sign 247, move
  down by 32. The code units 181, 223 and 255, whose upper-case forms lie outside the range or
  are two letters long, stay as they are: their images never equal the image of another code
  unit of the range, and never occur in the words \<^verbatim>\<open>FROM\<close>, \<^verbatim>\<open>JOIN\<close> and \<^verbatim>\<open>USING\<close> the source
  compares with. The letters are listed, lower case and upper case side by side; the Latin-1
  letters are the code units with the top bit set.
\<close>

definition asciiLower :: string where
  "asciiLower = ''abcdefghijklmnopqrstuvwxyz''"

definition asciiUpper :: string where
  "asciiUpper = ''ABCDEFGHIJKLMNOPQRSTUVWXYZ''"

definition latin1Lower :: string where
  "latin1Lower =
     [CHR 0xE0, CHR 0xE1, CHR 0xE2, CHR 0xE3, CHR 0xE4, CHR 0xE5, CHR 0xE6, CHR 0xE7,
      CHR 0xE8, CHR 0xE9, CHR 0xEA, CHR 0xEB, CHR 0xEC, CHR 0xED, CHR 0xEE, CHR 0xEF,
      CHR 0xF0, CHR 0xF1, CHR 0xF2, CHR 0xF3, CHR 0xF4, CHR 0xF5, CHR 0xF6,
      CHR 0xF8, CHR 0xF9, CHR 0xFA, CHR 0xFB, CHR 0xFC, CHR 0xFD, CHR 0xFE]"

definition latin1Upper :: string where
  "latin1Upper =
     [CHR 0xC0, CHR 0xC1, CHR 0xC2, CHR 0xC3, CHR 0xC4, CHR 0xC5, CHR 0xC6, CHR 0xC7,
      CHR 0xC8, CHR 0xC9, CHR 0xCA, CHR 0xCB, CHR 0xCC, CHR 0xCD, CHR 0xCE, CHR 0xCF,
      CHR 0xD0, CHR 0xD1, CHR 0xD2, CHR 0xD3, CHR 0xD4, CHR 0xD5, CHR 0xD6,
      CHR 0xD8, CHR 0xD9, CHR 0xDA, CHR 0xDB, CHR 0xDC, CHR 0xDD, CHR 0xDE]"

text \<open>The character at the place in \<open>to\<close> where \<open>c\<close> stands in \<open>from\<close>, or \<open>c\<close> itself.\<close>

fun translate :: "string \<Rightarrow> string \<Rightarrow> char \<Rightarrow> char" where
  "translate (a # as) (b # bs) c = (if c = a then b else translate as bs c)"
| "translate _ _ c = c"

definition toUpperChar :: "char \<Rightarrow> char" where
  "toUpperChar c =
     (if digit7 c then translate latin1Lower latin1Upper c
      else translate asciiLower asciiUpper c)"

definition toUpperCase :: "string \<Rightarrow> string" where
  "toUpperCase s = map toUpperChar s"

section \<open>The lexical scrubber: removeCommentsAndStrings\<close>

text \<open>
  The source walks the input with an index \<^verbatim>\<open>i\<close> and appends to \<^verbatim>\<open>result\<close>. The model walks
  the remaining input (the text from \<^verbatim>\<open>i\<close> on) and passes \<^verbatim>\<open>result\<close> along; each inner
  \<^verbatim>\<open>while\<close> loop of the source is a function from the remaining input to what remains
  after the loop.
\<close>

text \<open>\<^verbatim>\<open>while (i < sql.length && sql[i] !== '\n') i++\<close>\<close>

definition skipLineComment :: "string \<Rightarrow> string" where
  "skipLineComment s = dropWhile (\<lambda>c. c \<noteq> CHR 0x0A) s"

text \<open>
  After the opener \<^verbatim>\<open>/*\<close>: \<^verbatim>\<open>while (i < sql.length - 1) { if (sql[i] === '*' && sql[i + 1] === '/')
  { i += 2; break; } i++; }\<close>. The loop runs only while two characters remain, so it stops in
  front of a last single character.
\<close>

fun skipBlockComment :: "string \<Rightarrow> string" where
  "skipBlockComment (a # b # r) =
     (if a = CHR ''*'' \<and> b = CHR ''/'' then r else skipBlockComment (b # r))"
| "skipBlockComment s = s"

text \<open>
  After an opening single quote: a quote followed by a quote is skipped as a pair, another
  quote closes the literal, the end of the input ends the loop.
\<close>

fun skipSingleQuoted :: "string \<Rightarrow> string" where
  "skipSingleQuoted [] = []"
| "skipSingleQuoted [c] = []"
| "skipSingleQuoted (c # d # r) =
     (if c = CHR 0x27 then (if d = CHR 0x27 then skipSingleQuoted r else d # r)
      else skipSingleQuoted (d # r))"

text \<open>After an opening double quote read as a string literal: skip to after the next double quote.\<close>

fun skipDoubleQuoted :: "string \<Rightarrow> string" where
  "skipDoubleQuoted [] = []"
| "skipDoubleQuoted (c # r) = (if c = CHR 0x22 then r else skipDoubleQuoted r)"

text \<open>
  \<^verbatim>\<open>/[=!<>]\s*$/.test(result.slice(-10))\<close>: within the last ten characters of the output, a
  comparison character followed only by white space up to the end.
\<close>

definition isStringLiteral :: "string \<Rightarrow> bool" where
  "isStringLiteral result =
     (let beforeQuote = drop (length result - 10) result
      in case dropWhile isSpace (rev beforeQuote) of
           [] \<Rightarrow> False
         | c # _ \<Rightarrow> c \<in> set ''=!<>'')"

lemma length_skipBlockComment: "length (skipBlockComment s) \<le> length s"
  by (induction s rule: skipBlockComment.induct) auto

lemma length_skipSingleQuoted: "length (skipSingleQuoted s) \<le> length s"
  by (induction s rule: skipSingleQuoted.induct) auto

lemma length_skipDoubleQuoted: "length (skipDoubleQuoted s) \<le> length s"
  by (induction s rule: skipDoubleQuoted.induct) auto

lemma length_skipLineComment: "length (skipLineComment s) \<le> length s"
  by (simp add: skipLineComment_def length_dropWhile_le)

function scrubLoop :: "string \<Rightarrow> string \<Rightarrow> string" where
  "scrubLoop [] result = result"
| "scrubLoop (c # r) result =
     (if c = CHR ''-'' \<and> r \<noteq> [] \<and> hd r = CHR ''-'' then
        scrubLoop (skipLineComment (c # r)) result
      else if c = CHR ''/'' \<and> r \<noteq> [] \<and> hd r = CHR ''*'' then
        scrubLoop (skipBlockComment (tl r)) result
      else if c = CHR 0x27 then
        scrubLoop (skipSingleQuoted r) (result @ '' '')
      else if c = CHR 0x22 then
        (if isStringLiteral result then scrubLoop (skipDoubleQuoted r) (result @ '' '')
         else scrubLoop r (result @ [c]))
      else scrubLoop r (result @ [c]))"
  by pat_completeness auto
termination
proof (relation "measure (\<lambda>(s, _). length s)")
  fix c :: char and r result :: string
  assume "c = CHR ''-'' \<and> r \<noteq> [] \<and> hd r = CHR ''-''"
  then have "skipLineComment (c # r) = skipLineComment r"
    by (simp add: skipLineComment_def)
  then show "((skipLineComment (c # r), result), c # r, result) \<in> measure (\<lambda>(s, _). length s)"
    using length_skipLineComment [of r] by simp
next
  fix c :: char and r result :: string
  show "((skipBlockComment (tl r), result), c # r, result) \<in> measure (\<lambda>(s, _). length s)"
  proof -
    have "length (skipBlockComment (tl r)) \<le> length (tl r)"
      by (rule length_skipBlockComment)
    also have "\<dots> \<le> length r" by simp
    finally show ?thesis by simp
  qed
next
  fix c :: char and r result :: string
  show "((skipSingleQuoted r, result @ '' ''), c # r, result) \<in> measure (\<lambda>(s, _). length s)"
    using length_skipSingleQuoted [of r] by simp
next
  fix c :: char and r result :: string
  show "((skipDoubleQuoted r, result @ '' ''), c # r, result) \<in> measure (\<lambda>(s, _). length s)"
    using length_skipDoubleQuoted [of r] by simp
qed auto

text \<open>\<^verbatim>\<open>.replace(/\s+/g, ' ')\<close>: every maximal run of white space becomes one space.\<close>

function collapseWhitespace :: "string \<Rightarrow> string" where
  "collapseWhitespace [] = []"
| "collapseWhitespace (c # r) =
     (if isSpace c then CHR '' '' # collapseWhitespace (dropWhile isSpace r)
      else c # collapseWhitespace r)"
  by pat_completeness auto
termination
proof (relation "measure length")
  fix c :: char and r :: string
  show "(dropWhile isSpace r, c # r) \<in> measure length"
    using length_dropWhile_le [of isSpace r] by simp
qed auto

text \<open>\<^verbatim>\<open>.trim()\<close>\<close>

definition trim :: "string \<Rightarrow> string" where
  "trim s = rev (dropWhile isSpace (rev (dropWhile isSpace s)))"

definition removeCommentsAndStrings :: "string \<Rightarrow> string" where
  "removeCommentsAndStrings sql = trim (collapseWhitespace (scrubLoop sql []))"

section \<open>Keyword configuration\<close>

text \<open>\<^verbatim>\<open>defaultSqlKeywords.default\<close> of \<^verbatim>\<open>sql-keywords-config.ts\<close> (the same list in both variants).\<close>

definition defaultSqlKeywords_default :: "string list" where
  "defaultSqlKeywords_default =
     [''FROM'', ''JOIN'', ''INNER JOIN'', ''LEFT JOIN'', ''RIGHT JOIN'', ''FULL JOIN'',
      ''CROSS JOIN'', ''OUTER JOIN'',
      ''INTO'', ''UPDATE'', ''DELETE FROM'', ''INSERT INTO'', ''REPLACE INTO'', ''UPSERT INTO'',
      ''MERGE INTO'', ''USING'']"

datatype DatabaseType = Postgresql | Mysql | Sqlserver | Oracle | Bigquery | Snowflake | Sqlite

text \<open>\<^verbatim>\<open>defaultSqlKeywords.databaseSpecific\<close> of the variant with per-database keywords.\<close>

fun databaseSpecific :: "DatabaseType \<Rightarrow> string list" where
  "databaseSpecific Postgresql = [''LATERAL JOIN'', ''RETURNING'']"
| "databaseSpecific Mysql = [''STRAIGHT_JOIN'', ''REPLACE INTO'']"
| "databaseSpecific Sqlserver = [''CROSS APPLY'', ''OUTER APPLY'', ''MERGE INTO'', ''OUTPUT'']"
| "databaseSpecific Oracle = [''CONNECT BY'', ''MERGE INTO'', ''MODEL'']"
| "databaseSpecific Bigquery = [''MERGE INTO'']"
| "databaseSpecific Snowflake = [''LATERAL FLATTEN'', ''MERGE INTO'', ''COPY INTO'']"
| "databaseSpecific Sqlite = [''REPLACE INTO'']"

text \<open>
  A JavaScript \<^verbatim>\<open>Set\<close> of strings keeps its elements in insertion order and ignores the
  insertion of an element it has: a list without repetition, \<^verbatim>\<open>add\<close> appending at the end.
  \<^verbatim>\<open>Array.from(new Set(xs))\<close> is then the fold of \<^verbatim>\<open>add\<close> over \<^verbatim>\<open>xs\<close>.
\<close>

definition setAdd :: "string list \<Rightarrow> string \<Rightarrow> string list" where
  "setAdd st x = (if x \<in> set st then st else st @ [x])"

definition arrayFromSet :: "string list \<Rightarrow> string list" where
  "arrayFromSet xs = foldl setAdd [] xs"

definition getKeywordsForDatabase :: "DatabaseType option \<Rightarrow> string list" where
  "getKeywordsForDatabase databaseType =
     arrayFromSet
       (defaultSqlKeywords_default @
        (case databaseType of None \<Rightarrow> [] | Some d \<Rightarrow> databaseSpecific d))"

section \<open>The scanning pattern\<close>

text \<open>
  The source joins the keywords with \<^verbatim>\<open>|\<close> into the source text of a regular expression
  \<^verbatim>\<open>(?:K1|K2|...)\s+((?:PART)(?:\.(?:PART))*)\<close> with the flags \<^verbatim>\<open>g\<close> and \<^verbatim>\<open>i\<close>, where
  \<^verbatim>\<open>PART\<close> is a bracketed, double-quoted or backtick-quoted segment or a run of \<^verbatim>\<open>[\w@#]\<close>.
  The keywords are spliced in unescaped, so a character of regular-expression syntax in a keyword
  is read as syntax, and \<^verbatim>\<open>new RegExp\<close> throws \<^verbatim>\<open>SyntaxError\<close> when the joined text is no
  valid pattern. The model covers the keyword lists of literal phrases, free of such
  characters, as all keywords of the configuration are: for these the pattern always compiles
  and each keyword stands for its own text. For every other list the model stops with
  \<open>UnmodelledPattern\<close> and describes nothing of what the code does then.

  For literal keywords the model is the backtracking matcher of this one pattern, written out.
  The pattern looks neither behind nor ahead, so a match at an index depends only on the text
  from that index on, and the functions below take that text.
\<close>

text \<open>
  The syntax characters of a pattern: \<^verbatim>\<open>^ $ . * + ? ( ) [ ] { } |\<close> and the backslash (code
  unit 92).
\<close>

definition isSyntaxChar :: "char \<Rightarrow> bool" where
  "isSyntaxChar c =
     (c \<in> set [CHR ''^'', CHR ''$'', CHR 0x5C, CHR ''.'', CHR ''*'', CHR ''+'', CHR ''?'',
               CHR ''('', CHR '')'', CHR ''['', CHR '']'', CHR ''{'', CHR ''}'', CHR ''|''])"

definition literalKeyword :: "string \<Rightarrow> bool" where
  "literalKeyword k = list_all (\<lambda>c. \<not> isSyntaxChar c) k"

text \<open>
  The one way the model ends without a result: a keyword is not a literal phrase. The code then
  compiles another pattern than the one modelled, or throws \<^verbatim>\<open>SyntaxError\<close>.
\<close>

datatype ExtractionFailure = UnmodelledPattern

text \<open>
  A literal keyword at the start of the text, compared case-insensitively; gives the text after
  it.
\<close>

fun matchKeyword :: "string \<Rightarrow> string \<Rightarrow> string option" where
  "matchKeyword [] s = Some s"
| "matchKeyword (k # ks) [] = None"
| "matchKeyword (k # ks) (c # cs) =
     (if toUpperChar k = toUpperChar c then matchKeyword ks cs else None)"

text \<open>
  \<^verbatim>\<open>\s+\<close>: at least one white-space character, as many as there are (no segment starts with
  white space, so giving one back never helps).
\<close>

definition matchSpaces :: "string \<Rightarrow> string option" where
  "matchSpaces s =
     (case s of [] \<Rightarrow> None | c # r \<Rightarrow> if isSpace c then Some (dropWhile isSpace r) else None)"

text \<open>
  A quoted segment \<^verbatim>\<open>\[[^\]]+\]\<close> (or with double quotes, or backticks): the opening
  character, a non-empty run of characters other than the closing one, the closing character.
  Gives the inner text and the text after the segment.
\<close>

definition matchQuoted :: "char \<Rightarrow> char \<Rightarrow> string \<Rightarrow> (string \<times> string) option" where
  "matchQuoted opn cls s =
     (case s of
        [] \<Rightarrow> None
      | c # r \<Rightarrow>
          if c = opn then
            (let body = takeWhile (\<lambda>x. x \<noteq> cls) r; after = dropWhile (\<lambda>x. x \<noteq> cls) r
             in if body \<noteq> [] \<and> after \<noteq> [] then Some (body, tl after) else None)
          else None)"

text \<open>
  One segment, the alternatives in the order of the pattern; gives the text of the segment
  (with its quotes) and the text after it.
\<close>

definition matchPart :: "string \<Rightarrow> (string \<times> string) option" where
  "matchPart s =
     (case matchQuoted CHR ''['' CHR '']'' s of
        Some (body, r) \<Rightarrow> Some (CHR ''['' # body @ '']'', r)
      | None \<Rightarrow>
     (case matchQuoted CHR 0x22 CHR 0x22 s of
        Some (body, r) \<Rightarrow> Some (CHR 0x22 # body @ [CHR 0x22], r)
      | None \<Rightarrow>
     (case matchQuoted CHR 0x60 CHR 0x60 s of
        Some (body, r) \<Rightarrow> Some (CHR 0x60 # body @ [CHR 0x60], r)
      | None \<Rightarrow>
     (let w = takeWhile isIdentChar s
      in if w \<noteq> [] then Some (w, dropWhile isIdentChar s) else None))))"

lemma matchQuoted_length:
  "matchQuoted opn cls s = Some (body, r) \<Longrightarrow> length r < length s"
proof -
  assume a: "matchQuoted opn cls s = Some (body, r)"
  then obtain c t where s: "s = c # t" by (cases s) (auto simp: matchQuoted_def)
  from a s have "r = tl (dropWhile (\<lambda>x. x \<noteq> cls) t)"
    by (auto simp: matchQuoted_def Let_def split: if_splits)
  moreover have "length (dropWhile (\<lambda>x. x \<noteq> cls) t) \<le> length t"
    by (rule length_dropWhile_le)
  ultimately show ?thesis using s by simp
qed

lemma matchPart_length:
  assumes "matchPart s = Some (p, r)"
  shows "length r < length s"
proof (cases "matchQuoted CHR ''['' CHR '']'' s")
  case (Some a)
  with assms show ?thesis
    by (cases a) (auto simp: matchPart_def dest: matchQuoted_length)
next
  case n1: None
  show ?thesis
  proof (cases "matchQuoted CHR 0x22 CHR 0x22 s")
    case (Some a)
    with assms n1 show ?thesis
      by (cases a) (auto simp: matchPart_def dest: matchQuoted_length)
  next
    case n2: None
    show ?thesis
    proof (cases "matchQuoted CHR 0x60 CHR 0x60 s")
      case (Some a)
      with assms n1 n2 show ?thesis
        by (cases a) (auto simp: matchPart_def dest: matchQuoted_length)
    next
      case n3: None
      from assms n1 n2 n3 have w: "takeWhile isIdentChar s \<noteq> []" and r: "r = dropWhile isIdentChar s"
        by (auto simp: matchPart_def Let_def split: if_splits)
      have "length (takeWhile isIdentChar s) + length (dropWhile isIdentChar s) = length s"
        by (metis length_append takeWhile_dropWhile_id)
      with w r show ?thesis by (cases "takeWhile isIdentChar s") auto
    qed
  qed
qed

text \<open>\<^verbatim>\<open>(?:\.(?:PART))*\<close>, greedy: the further segments and the text after them.\<close>

function matchMoreParts :: "string \<Rightarrow> string \<times> string" where
  "matchMoreParts s =
     (case s of
        [] \<Rightarrow> ([], s)
      | c # r \<Rightarrow>
          if c = CHR ''.'' then
            (case matchPart r of
               None \<Rightarrow> ([], s)
             | Some (p, r') \<Rightarrow> (case matchMoreParts r' of (q, r'') \<Rightarrow> (c # p @ q, r'')))
          else ([], s))"
  by pat_completeness auto
termination
proof (relation "measure length")
  fix s :: string and c r x p r'
  assume "s = c # r" "matchPart r = Some x" "(p, r') = x"
  then have "length r' < length r" using matchPart_length [of r p r'] by simp
  with \<open>s = c # r\<close> show "(r', s) \<in> measure length" by simp
qed auto

text \<open>The captured identifier (group 1) and the text after it.\<close>

definition matchIdentifier :: "string \<Rightarrow> (string \<times> string) option" where
  "matchIdentifier s =
     (case matchPart s of
        None \<Rightarrow> None
      | Some (p, r) \<Rightarrow> (case matchMoreParts r of (q, r') \<Rightarrow> Some (p @ q, r')))"

text \<open>
  The alternatives of \<^verbatim>\<open>keywordPattern = allKeywords.join('|')\<close>: the keywords, and the one
  empty alternative when the list is empty (the joined text is then empty).
\<close>

definition patternAlternatives :: "string list \<Rightarrow> string list" where
  "patternAlternatives allKeywords = (if allKeywords = [] then [[]] else allKeywords)"

text \<open>
  \<^verbatim>\<open>new RegExp(...)\<close> on the joined keywords: the alternatives of the compiled pattern when all
  keywords are literal phrases, no description otherwise.
\<close>

definition compilePattern :: "string list \<Rightarrow> ExtractionFailure + string list" where
  "compilePattern allKeywords =
     (if list_all literalKeyword allKeywords then Inr (patternAlternatives allKeywords)
      else Inl UnmodelledPattern)"

text \<open>
  The whole pattern at the start of the text: the first alternative, in their order, after
  which white space and an identifier follow. Gives the alternative that matched (known to
  the engine, not shown to the caller), \<^verbatim>\<open>match[0]\<close>, \<^verbatim>\<open>match[1]\<close> and the text after the
  match.
\<close>

fun matchAt ::
  "string list \<Rightarrow> string \<Rightarrow> (string \<times> string \<times> string \<times> string) option" where
  "matchAt [] s = None"
| "matchAt (k # ks) s =
     (case matchKeyword k s of
        None \<Rightarrow> matchAt ks s
      | Some r1 \<Rightarrow>
     (case matchSpaces r1 of
        None \<Rightarrow> matchAt ks s
      | Some r2 \<Rightarrow>
     (case matchIdentifier r2 of
        None \<Rightarrow> matchAt ks s
      | Some (ident, rest) \<Rightarrow> Some (k, take (length s - length rest) s, ident, rest))))"

text \<open>\<^verbatim>\<open>regex.exec\<close>: the match at the first index that has one.\<close>

fun regexExec ::
  "string list \<Rightarrow> string \<Rightarrow> (string \<times> string \<times> string \<times> string) option" where
  "regexExec alts [] = matchAt alts []"
| "regexExec alts (c # cs) =
     (case matchAt alts (c # cs) of
        Some m \<Rightarrow> Some m
      | None \<Rightarrow> regexExec alts cs)"

text \<open>
  \<^verbatim>\<open>match[0].match(new RegExp('^(' + keywordPattern + ')\\s+', 'i'))\<close>: the first alternative
  that stands at the start of the matched text with white space after it; group 1 is the text
  it matched.
\<close>

fun keywordMatch :: "string list \<Rightarrow> string \<Rightarrow> string option" where
  "keywordMatch [] m0 = None"
| "keywordMatch (k # ks) m0 =
     (case matchKeyword k m0 of
        None \<Rightarrow> keywordMatch ks m0
      | Some r \<Rightarrow>
     (case matchSpaces r of
        None \<Rightarrow> keywordMatch ks m0
      | Some _ \<Rightarrow> Some (take (length k) m0)))"

text \<open>\<^verbatim>\<open>/^\s*\(/.test(remainingText)\<close>\<close>

definition isFunction :: "string \<Rightarrow> bool" where
  "isFunction remainingText =
     (case dropWhile isSpace remainingText of [] \<Rightarrow> False | c # _ \<Rightarrow> c = CHR ''('')"

text \<open>\<^verbatim>\<open>keyword.includes('JOIN')\<close>\<close>

fun includesStr :: "string \<Rightarrow> string \<Rightarrow> bool" where
  "includesStr [] needle = (needle = [])"
| "includesStr (c # cs) needle = (take (length needle) (c # cs) = needle \<or> includesStr cs needle)"

text \<open>
  \<^verbatim>\<open>keyword === 'FROM' || keyword.includes('JOIN') || keyword === 'USING'\<close> on the upper-cased
  keyword.
\<close>

definition isFunctionContext :: "string \<Rightarrow> bool" where
  "isFunctionContext keyword =
     (keyword = ''FROM'' \<or> includesStr keyword ''JOIN'' \<or> keyword = ''USING'')"

text \<open>
  \<^verbatim>\<open>.replace(/\[([^\]]+)\]/g, '$1')\<close> and its two siblings: from left to right, every quoted
  segment is replaced by its inner text.
\<close>

function stripQuotes :: "char \<Rightarrow> char \<Rightarrow> string \<Rightarrow> string" where
  "stripQuotes opn cls s =
     (case s of
        [] \<Rightarrow> []
      | c # r \<Rightarrow>
          (case matchQuoted opn cls s of
             Some (body, rest) \<Rightarrow> body @ stripQuotes opn cls rest
           | None \<Rightarrow> c # stripQuotes opn cls r))"
  by pat_completeness auto
termination
proof (relation "measure (\<lambda>(opn, cls, s). length s)")
  fix opn cls :: char and s :: string and c r x body rest
  assume "s = c # r" "matchQuoted opn cls s = Some x" "(body, rest) = x"
  then show "((opn, cls, rest), opn, cls, s) \<in> measure (\<lambda>(opn, cls, s). length s)"
    using matchQuoted_length [of opn cls s body rest] by simp
qed auto

declare stripQuotes.simps [simp del]

definition cleanTableName :: "string \<Rightarrow> string" where
  "cleanTableName tableIdentifier =
     stripQuotes CHR 0x60 CHR 0x60
       (stripQuotes CHR 0x22 CHR 0x22
          (stripQuotes CHR ''['' CHR '']'' tableIdentifier))"

section \<open>The known-table catalog\<close>

record TableMetadata =
  tableName :: string
  fullyQualifiedName :: string
  schema :: "string option"
  database :: "string option"

text \<open>
  A \<^verbatim>\<open>Map<string, TableMetadata>\<close> iterates in insertion order: an association list, whose keys
  are distinct in a well-formed catalog. \<^verbatim>\<open>has\<close> and \<^verbatim>\<open>get\<close> are \<^const>\<open>map_of\<close>.
\<close>

type_synonym KnownTables = "(string \<times> TableMetadata) list"

text \<open>\<^verbatim>\<open>String.prototype.split\<close> with a separator of one character.\<close>

fun splitOn :: "char \<Rightarrow> string \<Rightarrow> string list" where
  "splitOn sep [] = [[]]"
| "splitOn sep (c # cs) =
     (if c = sep then [] # splitOn sep cs
      else (case splitOn sep cs of [] \<Rightarrow> [[c]] | x # xs \<Rightarrow> (c # x) # xs))"

text \<open>\<^verbatim>\<open>tableName.includes('.') ? tableName.split('.').pop()! : tableName\<close>\<close>

definition tableWithoutSchema :: "string \<Rightarrow> string" where
  "tableWithoutSchema name =
     (if CHR ''.'' \<in> set name then last (splitOn CHR ''.'' name) else name)"

text \<open>The \<^verbatim>\<open>for (const [key, metadata] of knownTables)\<close> loop of \<^verbatim>\<open>resolveTableName\<close>.\<close>

fun resolveLoop :: "string \<Rightarrow> string \<Rightarrow> KnownTables \<Rightarrow> string option" where
  "resolveLoop name bare [] = None"
| "resolveLoop name bare ((key, metadata) # entries) =
     (if key = name then Some (fullyQualifiedName metadata)
      else if tableName metadata = bare then Some (fullyQualifiedName metadata)
      else if fullyQualifiedName metadata = name then Some (fullyQualifiedName metadata)
      else resolveLoop name bare entries)"

definition resolveTableName :: "string \<Rightarrow> KnownTables option \<Rightarrow> string" where
  "resolveTableName name catalog =
     (case catalog of
        None \<Rightarrow> name
      | Some kt \<Rightarrow>
          (case map_of kt name of
             Some metadata \<Rightarrow> fullyQualifiedName metadata
           | None \<Rightarrow>
               (case resolveLoop name (tableWithoutSchema name) kt of
                  Some resolved \<Rightarrow> resolved
                | None \<Rightarrow> name)))"

fun isKnownLoop :: "string \<Rightarrow> string \<Rightarrow> KnownTables \<Rightarrow> bool" where
  "isKnownLoop name bare [] = False"
| "isKnownLoop name bare ((key, metadata) # entries) =
     (if key = name \<or> tableName metadata = bare \<or> fullyQualifiedName metadata = name then True
      else isKnownLoop name bare entries)"

definition isKnownTable :: "string \<Rightarrow> KnownTables \<Rightarrow> bool" where
  "isKnownTable name catalog = isKnownLoop name (tableWithoutSchema name) catalog"

section \<open>extractTableNames\<close>

record TableExtractionResult =
  allTables :: "string list"
  realTables :: "string list"
  filteredCTEs :: "string list"

text \<open>
  The options of the variant with table metadata. \<^verbatim>\<open>filterCTEs\<close> and \<^verbatim>\<open>customKeywords\<close> carry
  the defaults of the destructuring (\<^verbatim>\<open>false\<close>, \<^verbatim>\<open>[]\<close>) when the caller leaves them out.
  The field \<^verbatim>\<open>keywords\<close> is written with a prime, the plain word being reserved.
\<close>

record TableExtractionOptions =
  knownTables :: "KnownTables option"
  filterCTEs :: bool
  customKeywords :: "string list"
  keywords' :: "string list option"

text \<open>The call with no options: \<^verbatim>\<open>options = {}\<close>.\<close>

definition noOptions :: TableExtractionOptions where
  "noOptions = \<lparr>knownTables = None, filterCTEs = False, customKeywords = [], keywords' = None\<rparr>"

text \<open>
  The test of the source on one match: the captured identifier looks like a function call and
  the keyword found again at the start of the match is a table source. Such a match is passed over
  (\<^verbatim>\<open>continue\<close>).
\<close>

definition skipsMatch :: "string list \<Rightarrow> string \<Rightarrow> string \<Rightarrow> bool" where
  "skipsMatch alts m0 remainingText =
     (if isFunction remainingText then
        (case keywordMatch alts m0 of
           Some keyword \<Rightarrow> isFunctionContext (toUpperCase keyword)
         | None \<Rightarrow> False)
      else False)"

lemma matchKeyword_length: "matchKeyword k s = Some r \<Longrightarrow> length r \<le> length s"
  by (induction k s rule: matchKeyword.induct) (auto split: if_splits)

lemma matchSpaces_length: "matchSpaces s = Some r \<Longrightarrow> length r < length s"
proof -
  assume a: "matchSpaces s = Some r"
  then obtain c t where s: "s = c # t" by (cases s) (auto simp: matchSpaces_def)
  with a have "r = dropWhile isSpace t" by (auto simp: matchSpaces_def split: if_splits)
  then show ?thesis using s length_dropWhile_le [of isSpace t] by simp
qed

lemma matchMoreParts_length: "matchMoreParts s = (q, r) \<Longrightarrow> length r \<le> length s"
proof (induction s arbitrary: q r rule: matchMoreParts.induct)
  case (1 s)
  show ?case
  proof (cases s)
    case Nil
    with "1.prems" show ?thesis by (simp add: matchMoreParts.simps [of "[]"])
  next
    case (Cons c t)
    show ?thesis
    proof (cases "c = CHR ''.''")
      case False
      with Cons "1.prems" show ?thesis by (simp add: matchMoreParts.simps [of "c # t"])
    next
      case True
      show ?thesis
      proof (cases "matchPart t")
        case None
        with True Cons "1.prems" show ?thesis by (simp add: matchMoreParts.simps [of "c # t"])
      next
        case (Some x)
        obtain p t' where x: "x = (p, t')" by (cases x)
        obtain q' r' where m: "matchMoreParts t' = (q', r')" by (cases "matchMoreParts t'")
        from "1.IH" [OF Cons True Some x [symmetric] m] have "length r' \<le> length t'" .
        moreover from Some x have "length t' < length t" by (simp add: matchPart_length)
        moreover from True Cons Some x m "1.prems" have "r = r'"
          by (simp add: matchMoreParts.simps [of "c # t"])
        ultimately show ?thesis using Cons by simp
      qed
    qed
  qed
qed

declare matchMoreParts.simps [simp del]

lemma matchIdentifier_length:
  assumes "matchIdentifier s = Some (ident, r)"
  shows "length r < length s"
proof -
  from assms obtain p t q where p: "matchPart s = Some (p, t)" and m: "matchMoreParts t = (q, r)"
    by (auto simp: matchIdentifier_def split: option.splits prod.splits)
  from matchPart_length [OF p] matchMoreParts_length [OF m] show ?thesis by simp
qed

lemma matchAt_length:
  "matchAt alts s = Some (kw, m0, ident, rest) \<Longrightarrow> length rest < length s"
proof (induction alts)
  case Nil
  then show ?case by simp
next
  case (Cons k ks)
  show ?case
  proof (cases "matchAt ks s = Some (kw, m0, ident, rest)")
    case True
    with Cons.IH show ?thesis by simp
  next
    case False
    with Cons.prems obtain r1 r2 where "matchKeyword k s = Some r1" "matchSpaces r1 = Some r2"
      "matchIdentifier r2 = Some (ident, rest)"
      by (auto split: option.splits)
    then show ?thesis
      using matchKeyword_length [of k s r1] matchSpaces_length [of r1 r2]
        matchIdentifier_length [of r2 ident rest] by simp
  qed
qed

lemma regexExec_length:
  "regexExec alts s = Some (kw, m0, ident, rest) \<Longrightarrow> length rest < length s"
proof (induction s)
  case Nil
  then show ?case using matchAt_length [of alts "[]" kw m0 ident rest] by simp
next
  case (Cons c cs)
  show ?case
  proof (cases "matchAt alts (c # cs)")
    case None
    with Cons show ?thesis by simp
  next
    case (Some m)
    with Cons.prems have "matchAt alts (c # cs) = Some (kw, m0, ident, rest)" by simp
    then show ?thesis by (rule matchAt_length)
  qed
qed

text \<open>
  The \<^verbatim>\<open>while ((match = regex.exec(cleanSql)) !== null)\<close> loop. \<^verbatim>\<open>regex.exec\<close> resumes at the
  end of the previous match, so the loop goes on with the text after the match. \<^verbatim>\<open>extracted\<close>
  is the set \<^verbatim>\<open>extractedTables\<close>. \<^verbatim>\<open>resolve\<close> is the step between cleaning a name and adding it:
  \<^verbatim>\<open>resolveTableName\<close> with the catalog in the variant with metadata, nothing in the other.
\<close>

function scanLoop ::
  "string list \<Rightarrow> (string \<Rightarrow> string) \<Rightarrow> string \<Rightarrow> string list \<Rightarrow> string list" where
  "scanLoop alts resolve s extracted =
     (case regexExec alts s of
        None \<Rightarrow> extracted
      | Some (alternative, m0, tableIdentifier, rest) \<Rightarrow>
          if tableIdentifier \<noteq> [] then
            (if skipsMatch alts m0 rest then scanLoop alts resolve rest extracted
             else scanLoop alts resolve rest
                    (setAdd extracted (resolve (cleanTableName tableIdentifier))))
          else scanLoop alts resolve rest extracted)"
  by pat_completeness auto
termination
proof (relation "measure (\<lambda>(alts, resolve, s, extracted). length s)")
  show "wf (measure (\<lambda>(alts, resolve, s, extracted). length s))" by simp
qed (auto dest: regexExec_length)

declare scanLoop.simps [simp del]

text \<open>Step 2 of \<^verbatim>\<open>extractTableNames\<close>: the keyword list.\<close>

definition buildKeywords :: "string list option \<Rightarrow> string list \<Rightarrow> string list \<Rightarrow> string list" where
  "buildKeywords keywordsOpt fallback custom =
     (let allKeywords =
            (case keywordsOpt of
               Some ks \<Rightarrow> if length ks > 0 then ks else fallback
             | None \<Rightarrow> fallback);
          allKeywords = (if length custom > 0 then allKeywords @ custom else allKeywords)
      in arrayFromSet allKeywords)"

text \<open>
  Step 4 of \<^verbatim>\<open>extractTableNames\<close>, the code after the loop: \<open>tables\<close> is \<^verbatim>\<open>allTables\<close>, \<open>filtering\<close>
  is \<^verbatim>\<open>filterCTEs\<close> and \<open>catalog\<close> is \<^verbatim>\<open>knownTables\<close>.
\<close>

definition classifyTables ::
  "string list \<Rightarrow> bool \<Rightarrow> KnownTables option \<Rightarrow> TableExtractionResult" where
  "classifyTables tables filtering catalog =
     (case catalog of
        Some kt \<Rightarrow>
          if filtering then
            \<lparr>allTables = tables,
             realTables = filter (\<lambda>t. isKnownTable t kt) tables,
             filteredCTEs = filter (\<lambda>t. \<not> isKnownTable t kt) tables\<rparr>
          else \<lparr>allTables = tables, realTables = tables, filteredCTEs = []\<rparr>
      | None \<Rightarrow> \<lparr>allTables = tables, realTables = tables, filteredCTEs = []\<rparr>)"

definition extractTableNames ::
  "string \<Rightarrow> TableExtractionOptions \<Rightarrow> ExtractionFailure + TableExtractionResult" where
  "extractTableNames sql options =
     (let cleanSql = removeCommentsAndStrings sql;
          allKeywords =
            buildKeywords (keywords' options) defaultSqlKeywords_default (customKeywords options)
      in case compilePattern allKeywords of
           Inl failure \<Rightarrow> Inl failure
         | Inr alts \<Rightarrow>
             (let extractedTables =
                    scanLoop alts (\<lambda>name. resolveTableName name (knownTables options)) cleanSql []
              in Inr (classifyTables extractedTables (filterCTEs options) (knownTables options))))"

text \<open>
  \<^verbatim>\<open>getTableNamesSimple\<close>: \<^verbatim>\<open>knownTables\<close> is an optional argument; a \<^verbatim>\<open>Map\<close>, empty or not,
  is truthy.
\<close>

definition getTableNamesSimple ::
  "string \<Rightarrow> KnownTables option \<Rightarrow> ExtractionFailure + string list" where
  "getTableNamesSimple sql knownTablesArg =
     (case extractTableNames sql
             \<lparr>knownTables = knownTablesArg, filterCTEs = (knownTablesArg \<noteq> None),
              customKeywords = [], keywords' = None\<rparr> of
        Inl failure \<Rightarrow> Inl failure
      | Inr result \<Rightarrow>
          Inr (if knownTablesArg \<noteq> None then realTables result else allTables result))"

section \<open>The variant with a set of known names\<close>

text \<open>
  The older \<^verbatim>\<open>parser.ts\<close> takes \<^verbatim>\<open>knownTables\<close> as a \<^verbatim>\<open>Set<string>\<close> (a list without
  repetition, \<^verbatim>\<open>has\<close> being membership), resolves nothing, and has the further option
  \<^verbatim>\<open>databaseType\<close>. Its scrubber, pattern and loop are the ones above.
\<close>

record SetExtractionOptions =
  knownNames :: "string list option"
  filterCTEsS :: bool
  customKeywordsS :: "string list"
  databaseType :: "DatabaseType option"
  keywordsS :: "string list option"

definition isKnownName :: "string \<Rightarrow> string list \<Rightarrow> bool" where
  "isKnownName t known = (t \<in> set known \<or> tableWithoutSchema t \<in> set known)"

text \<open>Step 4 in this variant.\<close>

definition classifyNames ::
  "string list \<Rightarrow> bool \<Rightarrow> string list option \<Rightarrow> TableExtractionResult" where
  "classifyNames tables filtering known =
     (case known of
        Some kn \<Rightarrow>
          if filtering then
            \<lparr>allTables = tables,
             realTables = filter (\<lambda>t. isKnownName t kn) tables,
             filteredCTEs =
               filter (\<lambda>t. \<not> (t \<in> set kn) \<and> \<not> (tableWithoutSchema t \<in> set kn)) tables\<rparr>
          else \<lparr>allTables = tables, realTables = tables, filteredCTEs = []\<rparr>
      | None \<Rightarrow> \<lparr>allTables = tables, realTables = tables, filteredCTEs = []\<rparr>)"

definition extractTableNamesS ::
  "string \<Rightarrow> SetExtractionOptions \<Rightarrow> ExtractionFailure + TableExtractionResult" where
  "extractTableNamesS sql options =
     (let cleanSql = removeCommentsAndStrings sql;
          allKeywords =
            buildKeywords (keywordsS options)
              (case databaseType options of
                 Some d \<Rightarrow> getKeywordsForDatabase (Some d)
               | None \<Rightarrow> defaultSqlKeywords_default)
              (customKeywordsS options)
      in case compilePattern allKeywords of
           Inl failure \<Rightarrow> Inl failure
         | Inr alts \<Rightarrow>
             (let extractedTables = scanLoop alts (\<lambda>name. name) cleanSql []
              in Inr (classifyNames extractedTables (filterCTEsS options) (knownNames options))))"

definition getTableNamesSimpleS ::
  "string \<Rightarrow> string list option \<Rightarrow> ExtractionFailure + string list" where
  "getTableNamesSimpleS sql knownArg =
     (case extractTableNamesS sql
             \<lparr>knownNames = knownArg, filterCTEsS = (knownArg \<noteq> None), customKeywordsS = [],
              databaseType = None, keywordsS = None\<rparr> of
        Inl failure \<Rightarrow> Inl failure
      | Inr result \<Rightarrow> Inr (if knownArg \<noteq> None then realTables result else allTables result))"

section \<open>Notions used to state the properties\<close>

text \<open>
  \<open>whole\<close> is split into \<open>left\<close> and \<open>right\<close>: together they hold the elements of \<open>whole\<close>, they
  share none, each keeps the order of \<open>whole\<close>, and no element is counted twice.
\<close>

definition isPartitionOf :: "string list \<Rightarrow> string list \<Rightarrow> string list \<Rightarrow> bool" where
  "isPartitionOf whole left right =
     (set left \<union> set right = set whole \<and> set left \<inter> set right = {} \<and>
      subseq left whole \<and> subseq right whole \<and> length left + length right = length whole)"

text \<open>The bare form of a name: the text after its last dot.\<close>

definition bareName :: "string \<Rightarrow> string" where
  "bareName name = rev (takeWhile (\<lambda>c. c \<noteq> CHR ''.'') (rev name))"

text \<open>
  The resolution policy in the words of the specification: the entry under the exact key,
  otherwise the first entry whose table name is the bare form of the name, otherwise the name.
\<close>

definition resolvePolicy :: "string \<Rightarrow> KnownTables \<Rightarrow> string" where
  "resolvePolicy name catalog =
     (case map_of catalog name of
        Some metadata \<Rightarrow> fullyQualifiedName metadata
      | None \<Rightarrow>
          (case find (\<lambda>(key, metadata). tableName metadata = bareName name) catalog of
             Some (key, metadata) \<Rightarrow> fullyQualifiedName metadata
           | None \<Rightarrow> name))"

text \<open>Example inputs.\<close>

definition plainEntry :: "string \<Rightarrow> string \<Rightarrow> TableMetadata" where
  "plainEntry t fqn = \<lparr>tableName = t, fullyQualifiedName = fqn, schema = None, database = None\<rparr>"

definition cteQuery :: string where
  "cteQuery =
     ''WITH temp AS (SELECT * FROM users) SELECT * FROM temp JOIN orders ON temp.id = orders.user_id''"

definition cteCatalog :: KnownTables where
  "cteCatalog = [(''users'', plainEntry ''users'' ''users''), (''orders'', plainEntry ''orders'' ''orders'')]"

text \<open>A catalog with a table whose own name has a dot in it.\<close>

definition dottedCatalog :: KnownTables where
  "dottedCatalog =
     [(''legacy'', plainEntry ''my.table'' ''dbo.my.table''),
      (''current'', plainEntry ''table'' ''public.table'')]"

text \<open>The text \<^verbatim>\<open>SELECT * FROM "my--table" t\<close>.\<close>

definition quotedDashQuery :: string where
  "quotedDashQuery = ''SELECT * FROM '' @ [CHR 0x22] @ ''my--table'' @ [CHR 0x22] @ '' t''"

text \<open>
  The names the loop adds to \<^verbatim>\<open>extractedTables\<close>, one for each match that is not passed over, in
  the order of the scan: the loop of \<open>scanLoop\<close> without the set.
\<close>

function capturedNames :: "string list \<Rightarrow> (string \<Rightarrow> string) \<Rightarrow> string \<Rightarrow> string list" where
  "capturedNames alts resolve s =
     (case regexExec alts s of
        None \<Rightarrow> []
      | Some (alternative, m0, tableIdentifier, rest) \<Rightarrow>
          if tableIdentifier \<noteq> [] \<and> \<not> skipsMatch alts m0 rest
          then resolve (cleanTableName tableIdentifier) # capturedNames alts resolve rest
          else capturedNames alts resolve rest)"
  by pat_completeness auto
termination
proof (relation "measure (\<lambda>(alts, resolve, s). length s)")
  show "wf (measure (\<lambda>(alts, resolve, s). length s))" by simp
qed (auto dest: regexExec_length)

declare capturedNames.simps [simp del]

text \<open>The place of the first occurrence of \<open>x\<close> in \<open>xs\<close> (the length of \<open>xs\<close> when there is none).\<close>

definition firstIndex :: "string list \<Rightarrow> string \<Rightarrow> nat" where
  "firstIndex xs x = length (takeWhile (\<lambda>y. y \<noteq> x) xs)"



text \<open>The keyword list of a call (\<^verbatim>\<open>allKeywords\<close> after step 2), in each variant.\<close>

definition effectiveKeywords :: "TableExtractionOptions \<Rightarrow> string list" where
  "effectiveKeywords options =
     buildKeywords (keywords' options) defaultSqlKeywords_default (customKeywords options)"

definition effectiveKeywordsS :: "SetExtractionOptions \<Rightarrow> string list" where
  "effectiveKeywordsS options =
     buildKeywords (keywordsS options)
       (case databaseType options of
          Some d \<Rightarrow> getKeywordsForDatabase (Some d)
        | None \<Rightarrow> defaultSqlKeywords_default)
       (customKeywordsS options)"

text \<open>The effective alternatives of a call with no keyword options.\<close>

definition defaultAlternatives :: "string list" where
  "defaultAlternatives = patternAlternatives (buildKeywords None defaultSqlKeywords_default [])"


section \<open>Properties\<close>

subsection \<open>When the model gives a result\<close>

lemma set_foldl_setAdd: "set (foldl setAdd acc xs) = set acc \<union> set xs"
  by (induction xs arbitrary: acc) (auto simp: setAdd_def)

lemma distinct_foldl_setAdd: "distinct acc \<Longrightarrow> distinct (foldl setAdd acc xs)"
  by (induction xs arbitrary: acc) (auto simp: setAdd_def)

lemma set_arrayFromSet: "set (arrayFromSet xs) = set xs"
  by (simp add: arrayFromSet_def set_foldl_setAdd)

lemma default_keywords_literal: "list_all literalKeyword defaultSqlKeywords_default"
  by code_simp

lemma database_keywords_literal_all:
  "list_all (\<lambda>d. list_all literalKeyword (databaseSpecific d))
     [Postgresql, Mysql, Sqlserver, Oracle, Bigquery, Snowflake, Sqlite]"
  by code_simp

lemma database_keywords_literal: "list_all literalKeyword (databaseSpecific d)"
proof -
  have "d \<in> set [Postgresql, Mysql, Sqlserver, Oracle, Bigquery, Snowflake, Sqlite]"
    by (cases d) simp_all
  with database_keywords_literal_all show ?thesis unfolding list_all_iff by blast
qed

lemma getKeywordsForDatabase_literal: "list_all literalKeyword (getKeywordsForDatabase dbt)"
  using default_keywords_literal database_keywords_literal
  by (cases dbt) (auto simp: getKeywordsForDatabase_def set_arrayFromSet list_all_iff)

lemma buildKeywords_literal:
  assumes "list_all literalKeyword fallback" and "list_all literalKeyword custom"
  shows "list_all literalKeyword (buildKeywords None fallback custom)"
  using assms by (auto simp: buildKeywords_def set_arrayFromSet list_all_iff)

lemma buildKeywords_empty:
  "buildKeywords (Some []) fallback custom = buildKeywords None fallback custom"
  by (simp add: buildKeywords_def)

lemma extractTableNames_cases:
  "extractTableNames sql options =
     (if list_all literalKeyword (effectiveKeywords options)
      then Inr (classifyTables
                  (scanLoop (patternAlternatives (effectiveKeywords options))
                     (\<lambda>name. resolveTableName name (knownTables options))
                     (removeCommentsAndStrings sql) [])
                  (filterCTEs options) (knownTables options))
      else Inl UnmodelledPattern)"
  by (simp add: extractTableNames_def effectiveKeywords_def compilePattern_def Let_def)

lemma extractTableNamesS_cases:
  "extractTableNamesS sql options =
     (if list_all literalKeyword (effectiveKeywordsS options)
      then Inr (classifyNames
                  (scanLoop (patternAlternatives (effectiveKeywordsS options)) (\<lambda>name. name)
                     (removeCommentsAndStrings sql) [])
                  (filterCTEsS options) (knownNames options))
      else Inl UnmodelledPattern)"
  by (simp add: extractTableNamesS_def effectiveKeywordsS_def compilePattern_def Let_def)

lemma effectiveKeywords_defaults:
  "list_all literalKeyword (customKeywords options) \<Longrightarrow> keywords' options = None \<Longrightarrow>
   list_all literalKeyword (effectiveKeywords options)"
  unfolding effectiveKeywords_def
  by (simp add: buildKeywords_literal default_keywords_literal)

lemma effectiveKeywordsS_defaults:
  assumes "list_all literalKeyword (customKeywordsS options)" and "keywordsS options = None"
  shows "list_all literalKeyword (effectiveKeywordsS options)"
proof -
  have "list_all literalKeyword
      (case databaseType options of
         Some d \<Rightarrow> getKeywordsForDatabase (Some d)
       | None \<Rightarrow> defaultSqlKeywords_default)"
    by (cases "databaseType options")
      (simp_all add: default_keywords_literal getKeywordsForDatabase_literal)
  with assms show ?thesis unfolding effectiveKeywordsS_def by (simp add: buildKeywords_literal)
qed

subsection \<open>Partition of the result\<close>

lemma filter_partition_props:
  "set (filter P xs) \<union> set (filter (\<lambda>x. \<not> P x) xs) = set xs \<and>
   set (filter P xs) \<inter> set (filter (\<lambda>x. \<not> P x) xs) = {} \<and>
   subseq (filter P xs) xs \<and> subseq (filter (\<lambda>x. \<not> P x) xs) xs \<and>
   length (filter P xs) + length (filter (\<lambda>x. \<not> P x) xs) = length xs"
  by (auto simp: sum_length_filter_compl)

lemma isPartitionOf_filter: "isPartitionOf xs (filter P xs) (filter (\<lambda>x. \<not> P x) xs)"
  unfolding isPartitionOf_def by (rule filter_partition_props)

lemma classifyTables_partition:
  "(let r = classifyTables tables filtering catalog
    in allTables r = tables \<and>
       (if filtering \<and> catalog \<noteq> None
        then isPartitionOf tables (realTables r) (filteredCTEs r)
        else realTables r = tables \<and> filteredCTEs r = []))"
  by (cases catalog) (simp_all add: classifyTables_def isPartitionOf_filter)

lemma classifyNames_partition:
  "(let r = classifyNames tables filtering known
    in allTables r = tables \<and>
       (if filtering \<and> known \<noteq> None
        then isPartitionOf tables (realTables r) (filteredCTEs r)
        else realTables r = tables \<and> filteredCTEs r = []))"
proof -
  have notknown:
    "(\<lambda>t. \<not> (t \<in> set kn) \<and> \<not> (tableWithoutSchema t \<in> set kn)) = (\<lambda>t. \<not> isKnownName t kn)"
    for kn
    by (auto simp: isKnownName_def)
  show ?thesis
    by (cases known) (simp_all add: classifyNames_def notknown isPartitionOf_filter)
qed

lemma classifyTables_shape:
  "(if filtering \<and> catalog \<noteq> None
    then isPartitionOf (allTables (classifyTables tables filtering catalog))
           (realTables (classifyTables tables filtering catalog))
           (filteredCTEs (classifyTables tables filtering catalog))
    else realTables (classifyTables tables filtering catalog) =
           allTables (classifyTables tables filtering catalog) \<and>
         filteredCTEs (classifyTables tables filtering catalog) = [])"
  by (cases catalog; cases filtering) (simp_all add: classifyTables_def isPartitionOf_filter)

lemma classifyNames_shape:
  "(if filtering \<and> known \<noteq> None
    then isPartitionOf (allTables (classifyNames tables filtering known))
           (realTables (classifyNames tables filtering known))
           (filteredCTEs (classifyNames tables filtering known))
    else realTables (classifyNames tables filtering known) =
           allTables (classifyNames tables filtering known) \<and>
         filteredCTEs (classifyNames tables filtering known) = [])"
proof -
  have notknown:
    "(\<lambda>t. \<not> (t \<in> set kn) \<and> \<not> (tableWithoutSchema t \<in> set kn)) = (\<lambda>t. \<not> isKnownName t kn)"
    for kn
    by (auto simp: isKnownName_def)
  show ?thesis
    by (cases known; cases filtering)
      (simp_all add: classifyNames_def notknown isPartitionOf_filter)
qed

text \<open>
  C1. In both variants, whatever the scan has collected: when CTE classification is enabled and
  a catalog is supplied, \<open>allTables\<close> is the disjoint union of \<open>realTables\<close> and \<open>filteredCTEs\<close>,
  each half in the order of \<open>allTables\<close>; otherwise \<open>realTables\<close> is \<open>allTables\<close> and
  \<open>filteredCTEs\<close> is empty. So it is for every result of \<open>extractTableNames\<close>; the model gives
  none only for a keyword list that is not literal.
\<close>

theorem extractTableNames_partition:
  "(let r = classifyTables tables (filterCTEs options) (knownTables options)
    in allTables r = tables \<and>
       (if filterCTEs options \<and> knownTables options \<noteq> None
        then isPartitionOf tables (realTables r) (filteredCTEs r)
        else realTables r = tables \<and> filteredCTEs r = []))
   \<and>
   (case extractTableNames sql options of
      Inl failure \<Rightarrow> \<not> list_all literalKeyword (effectiveKeywords options)
    | Inr r \<Rightarrow>
        if filterCTEs options \<and> knownTables options \<noteq> None
        then isPartitionOf (allTables r) (realTables r) (filteredCTEs r)
        else realTables r = allTables r \<and> filteredCTEs r = [])
   \<and>
   (let r = classifyNames tables (filterCTEsS optionsS) (knownNames optionsS)
    in allTables r = tables \<and>
       (if filterCTEsS optionsS \<and> knownNames optionsS \<noteq> None
        then isPartitionOf tables (realTables r) (filteredCTEs r)
        else realTables r = tables \<and> filteredCTEs r = []))
   \<and>
   (case extractTableNamesS sql optionsS of
      Inl failure \<Rightarrow> \<not> list_all literalKeyword (effectiveKeywordsS optionsS)
    | Inr r \<Rightarrow>
        if filterCTEsS optionsS \<and> knownNames optionsS \<noteq> None
        then isPartitionOf (allTables r) (realTables r) (filteredCTEs r)
        else realTables r = allTables r \<and> filteredCTEs r = [])"
proof -
  note a = classifyTables_partition [of tables "filterCTEs options" "knownTables options"]
  note c = classifyNames_partition [of tables "filterCTEsS optionsS" "knownNames optionsS"]
  have b: "(case extractTableNames sql options of
      Inl failure \<Rightarrow> \<not> list_all literalKeyword (effectiveKeywords options)
    | Inr r \<Rightarrow>
        if filterCTEs options \<and> knownTables options \<noteq> None
        then isPartitionOf (allTables r) (realTables r) (filteredCTEs r)
        else realTables r = allTables r \<and> filteredCTEs r = [])"
  proof (cases "list_all literalKeyword (effectiveKeywords options)")
    case False
    then show ?thesis by (simp add: extractTableNames_cases)
  next
    case True
    let ?t = "scanLoop (patternAlternatives (effectiveKeywords options))
                     (\<lambda>name. resolveTableName name (knownTables options))
                     (removeCommentsAndStrings sql) []"
    have "extractTableNames sql options =
        Inr (classifyTables ?t (filterCTEs options) (knownTables options))"
      using True by (simp only: extractTableNames_cases if_True)
    then show ?thesis
      using classifyTables_shape [of "filterCTEs options" "knownTables options" ?t]
      by (simp only: sum.case)
  qed
  have d: "(case extractTableNamesS sql optionsS of
      Inl failure \<Rightarrow> \<not> list_all literalKeyword (effectiveKeywordsS optionsS)
    | Inr r \<Rightarrow>
        if filterCTEsS optionsS \<and> knownNames optionsS \<noteq> None
        then isPartitionOf (allTables r) (realTables r) (filteredCTEs r)
        else realTables r = allTables r \<and> filteredCTEs r = [])"
  proof (cases "list_all literalKeyword (effectiveKeywordsS optionsS)")
    case False
    then show ?thesis by (simp add: extractTableNamesS_cases)
  next
    case True
    let ?t = "scanLoop (patternAlternatives (effectiveKeywordsS optionsS)) (\<lambda>name. name)
                     (removeCommentsAndStrings sql) []"
    have "extractTableNamesS sql optionsS =
        Inr (classifyNames ?t (filterCTEsS optionsS) (knownNames optionsS))"
      using True by (simp only: extractTableNamesS_cases if_True)
    then show ?thesis
      using classifyNames_shape [of "filterCTEsS optionsS" "knownNames optionsS" ?t]
      by (simp only: sum.case)
  qed
  from a b c d show ?thesis by blast
qed

lemma cteQuery_result:
  "extractTableNames cteQuery
     \<lparr>knownTables = Some cteCatalog, filterCTEs = True, customKeywords = [], keywords' = None\<rparr> =
     Inr \<lparr>allTables = [''users'', ''temp'', ''orders''], realTables = [''users'', ''orders''],
          filteredCTEs = [''temp'']\<rparr>"
  by code_simp

theorem extractTableNames_partition_witness:
  "extractTableNames cteQuery
     \<lparr>knownTables = Some cteCatalog, filterCTEs = True, customKeywords = [], keywords' = None\<rparr> =
     Inr \<lparr>allTables = [''users'', ''temp'', ''orders''], realTables = [''users'', ''orders''],
          filteredCTEs = [''temp'']\<rparr> \<and>
   isPartitionOf [''users'', ''temp'', ''orders''] [''users'', ''orders''] [''temp'']"
proof -
  let ?o = "\<lparr>knownTables = Some cteCatalog, filterCTEs = True, customKeywords = [], keywords' = None\<rparr>"
  let ?oS = "\<lparr>knownNames = None, filterCTEsS = True, customKeywordsS = [], databaseType = None,
      keywordsS = None\<rparr>"
  from extractTableNames_partition [of "[]" ?o cteQuery ?oS]
  have "isPartitionOf [''users'', ''temp'', ''orders''] [''users'', ''orders''] [''temp'']"
    by (simp add: cteQuery_result)
  with cteQuery_result show ?thesis by simp
qed

subsection \<open>An empty explicit keyword list\<close>

lemma users_query_empty_keywords:
  "extractTableNames ''SELECT * FROM users'' (noOptions\<lparr>keywords' := Some []\<rparr>) =
     Inr \<lparr>allTables = [''users''], realTables = [''users''], filteredCTEs = []\<rparr>"
  by code_simp

lemma users_query_empty_keywordsS:
  "extractTableNamesS ''SELECT * FROM users''
     \<lparr>knownNames = None, filterCTEsS = False, customKeywordsS = [], databaseType = None,
      keywordsS = Some []\<rparr> =
     Inr \<lparr>allTables = [''users''], realTables = [''users''], filteredCTEs = []\<rparr>"
  by code_simp

text \<open>
  C3, as the code has it. In both variants an explicit keyword list that is empty does not
  collapse the pattern: the guard on its length reads it as no list, so step 2 builds the
  keyword list of the same call without the list (the default keywords, or those of the
  database type, and the custom ones), and the call does exactly what that call does. It gives
  a result whenever the custom keywords are literal phrases. The result need not be empty: on
  \<^verbatim>\<open>SELECT * FROM users\<close> with no other option it is \<^verbatim>\<open>users\<close>.
\<close>

theorem extractTableNames_empty_keywords:
  "effectiveKeywords (options\<lparr>keywords' := Some []\<rparr>) =
     effectiveKeywords (options\<lparr>keywords' := None\<rparr>) \<and>
   effectiveKeywordsS (optionsS\<lparr>keywordsS := Some []\<rparr>) =
     effectiveKeywordsS (optionsS\<lparr>keywordsS := None\<rparr>) \<and>
   extractTableNames sql (options\<lparr>keywords' := Some []\<rparr>) =
     extractTableNames sql (options\<lparr>keywords' := None\<rparr>) \<and>
   (list_all literalKeyword (customKeywords options) \<longrightarrow>
      (\<exists>r. extractTableNames sql (options\<lparr>keywords' := Some []\<rparr>) = Inr r)) \<and>
   extractTableNames ''SELECT * FROM users'' (noOptions\<lparr>keywords' := Some []\<rparr>) =
     Inr \<lparr>allTables = [''users''], realTables = [''users''], filteredCTEs = []\<rparr> \<and>
   extractTableNamesS sql (optionsS\<lparr>keywordsS := Some []\<rparr>) =
     extractTableNamesS sql (optionsS\<lparr>keywordsS := None\<rparr>) \<and>
   (list_all literalKeyword (customKeywordsS optionsS) \<longrightarrow>
      (\<exists>r. extractTableNamesS sql (optionsS\<lparr>keywordsS := Some []\<rparr>) = Inr r)) \<and>
   extractTableNamesS ''SELECT * FROM users''
     \<lparr>knownNames = None, filterCTEsS = False, customKeywordsS = [], databaseType = None,
      keywordsS = Some []\<rparr> =
     Inr \<lparr>allTables = [''users''], realTables = [''users''], filteredCTEs = []\<rparr>"
proof -
  have e: "effectiveKeywords (options\<lparr>keywords' := Some []\<rparr>) =
      effectiveKeywords (options\<lparr>keywords' := None\<rparr>)"
    by (simp add: effectiveKeywords_def buildKeywords_empty)
  have eS: "effectiveKeywordsS (optionsS\<lparr>keywordsS := Some []\<rparr>) =
      effectiveKeywordsS (optionsS\<lparr>keywordsS := None\<rparr>)"
    by (simp add: effectiveKeywordsS_def buildKeywords_empty)
  have 1: "extractTableNames sql (options\<lparr>keywords' := Some []\<rparr>) =
     extractTableNames sql (options\<lparr>keywords' := None\<rparr>)"
    by (simp add: extractTableNames_cases e)
  have 2: "\<exists>r. extractTableNames sql (options\<lparr>keywords' := Some []\<rparr>) = Inr r"
    if "list_all literalKeyword (customKeywords options)"
  proof -
    from that have "list_all literalKeyword (effectiveKeywords (options\<lparr>keywords' := None\<rparr>))"
      by (intro effectiveKeywords_defaults) simp_all
    then show ?thesis by (simp add: extractTableNames_cases e)
  qed
  have 3: "extractTableNamesS sql (optionsS\<lparr>keywordsS := Some []\<rparr>) =
     extractTableNamesS sql (optionsS\<lparr>keywordsS := None\<rparr>)"
    by (simp add: extractTableNamesS_cases eS)
  have 4: "\<exists>r. extractTableNamesS sql (optionsS\<lparr>keywordsS := Some []\<rparr>) = Inr r"
    if "list_all literalKeyword (customKeywordsS optionsS)"
  proof -
    from that have "list_all literalKeyword (effectiveKeywordsS (optionsS\<lparr>keywordsS := None\<rparr>))"
      by (intro effectiveKeywordsS_defaults) simp_all
    then show ?thesis by (simp add: extractTableNamesS_cases eS)
  qed
  from e eS 1 2 3 4 users_query_empty_keywords users_query_empty_keywordsS show ?thesis
    by blast
qed

text \<open>
  The claim as stated fails: with an empty keyword list the table of a plain query is found, the
  result sequences are not empty.
\<close>

theorem extractTableNames_empty_keywords_counterexample:
  "extractTableNames ''SELECT * FROM users'' (noOptions\<lparr>keywords' := Some []\<rparr>) =
     Inr \<lparr>allTables = [''users''], realTables = [''users''], filteredCTEs = []\<rparr> \<and>
   extractTableNamesS ''SELECT * FROM users''
     \<lparr>knownNames = None, filterCTEsS = False, customKeywordsS = [], databaseType = None,
      keywordsS = Some []\<rparr> =
     Inr \<lparr>allTables = [''users''], realTables = [''users''], filteredCTEs = []\<rparr>"
  using users_query_empty_keywords users_query_empty_keywordsS by (rule conjI)

theorem extractTableNames_empty_keywords_witness:
  "list_all literalKeyword (customKeywords (noOptions\<lparr>customKeywords := [''LATERAL'']\<rparr>)) \<and>
   extractTableNames ''SELECT * FROM a, LATERAL b''
       (noOptions\<lparr>customKeywords := [''LATERAL''], keywords' := Some []\<rparr>) =
     extractTableNames ''SELECT * FROM a, LATERAL b''
       (noOptions\<lparr>customKeywords := [''LATERAL''], keywords' := None\<rparr>) \<and>
   extractTableNames ''SELECT * FROM a, LATERAL b''
       (noOptions\<lparr>customKeywords := [''LATERAL''], keywords' := Some []\<rparr>) =
     Inr \<lparr>allTables = [''a'', ''b''], realTables = [''a'', ''b''], filteredCTEs = []\<rparr>"
proof -
  let ?o = "noOptions\<lparr>customKeywords := [''LATERAL'']\<rparr>"
  let ?q = "''SELECT * FROM a, LATERAL b''"
  have l: "list_all literalKeyword (customKeywords ?o)" by code_simp
  have v: "extractTableNames ?q (?o\<lparr>keywords' := None\<rparr>) =
      Inr \<lparr>allTables = [''a'', ''b''], realTables = [''a'', ''b''], filteredCTEs = []\<rparr>"
    by code_simp
  from extractTableNames_empty_keywords [where sql = ?q and options = ?o]
  have "extractTableNames ?q (?o\<lparr>keywords' := Some []\<rparr>) =
      extractTableNames ?q (?o\<lparr>keywords' := None\<rparr>)" by blast
  with l v show ?thesis by simp
qed

subsection \<open>The scrubber on quoted identifiers and unterminated comments\<close>

text \<open>
  C4, at a failing input. In front of the double quote of \<^verbatim>\<open>SELECT * FROM "my--table" t\<close> the
  output ends with \<^verbatim>\<open>FROM\<close>, no comparison character. Only the quote is copied; the text after
  it is scanned as before, and \<^verbatim>\<open>--\<close> inside the quoted name starts a comment that runs to the
  end of the line. The quoted name is lost, and with it the table.
\<close>

theorem removeCommentsAndStrings_quoted_dashes:
  "removeCommentsAndStrings quotedDashQuery = ''SELECT * FROM '' @ [CHR 0x22] @ ''my'' \<and>
   extractTableNames quotedDashQuery noOptions =
     Inr \<lparr>allTables = [], realTables = [], filteredCTEs = []\<rparr>"
  by code_simp

text \<open>
  C5, at a failing input. The loop that skips a block comment stops while one character is
  left, so the last character of an unterminated comment is emitted.
\<close>

theorem removeCommentsAndStrings_unterminated_block:
  "removeCommentsAndStrings ''SELECT 1 /* note'' = ''SELECT 1 e'' \<and>
   removeCommentsAndStrings ''SELECT 1 '' = ''SELECT 1''"
  by code_simp

subsection \<open>Resolution against the catalog\<close>

lemma splitOn_nonempty: "splitOn sep s \<noteq> []"
  by (induction s) (auto split: list.splits)

lemma splitOn_no_sep: "sep \<notin> set cs \<Longrightarrow> splitOn sep cs = [cs]"
  by (induction cs) auto

lemma splitOn_sep_tail: "sep \<in> set cs \<Longrightarrow> splitOn sep cs = x # xs \<Longrightarrow> xs \<noteq> []"
proof (induction cs arbitrary: x xs)
  case Nil
  then show ?case by simp
next
  case (Cons d ds)
  then show ?case using splitOn_nonempty [of sep ds] by (auto split: if_splits list.splits)
qed

lemma last_splitOn: "last (splitOn sep s) = rev (takeWhile (\<lambda>c. c \<noteq> sep) (rev s))"
proof (induction s)
  case Nil
  show ?case by simp
next
  case (Cons c cs)
  obtain x xs where sp: "splitOn sep cs = x # xs"
    using splitOn_nonempty [of sep cs] by (cases "splitOn sep cs") auto
  show ?case
  proof (cases "sep \<in> set cs")
    case True
    then have tw: "takeWhile (\<lambda>c. c \<noteq> sep) (rev cs @ [c]) = takeWhile (\<lambda>c. c \<noteq> sep) (rev cs)"
      by (simp add: takeWhile_append1)
    from True sp have "xs \<noteq> []" by (rule splitOn_sep_tail)
    with sp Cons tw show ?thesis by (auto split: list.splits)
  next
    case False
    then have tw: "takeWhile (\<lambda>c. c \<noteq> sep) (rev cs @ [c]) =
        rev cs @ takeWhile (\<lambda>c. c \<noteq> sep) [c]"
      by (intro takeWhile_append2) auto
    from False have sp1: "splitOn sep cs = [cs]" by (rule splitOn_no_sep)
    show ?thesis
    proof (cases "c = sep")
      case True
      with sp1 show ?thesis unfolding rev.simps tw by simp
    next
      case False
      with sp1 show ?thesis unfolding rev.simps tw by simp
    qed
  qed
qed

lemma tableWithoutSchema_bare: "tableWithoutSchema name = bareName name"
proof (cases "CHR ''.'' \<in> set name")
  case True
  then show ?thesis by (simp add: tableWithoutSchema_def bareName_def last_splitOn)
next
  case False
  then have "\<forall>x\<in>set (rev name). x \<noteq> CHR ''.''" by auto
  then have tw: "takeWhile (\<lambda>c. c \<noteq> CHR ''.'') (rev name) = rev name"
    by (simp only: takeWhile_eq_all_conv)
  show ?thesis unfolding tableWithoutSchema_def bareName_def tw using False by simp
qed

lemma resolveLoop_find:
  "map_of catalog name = None \<Longrightarrow>
   resolveLoop name bare catalog =
     (case find (\<lambda>(key, metadata). tableName metadata = bare \<or> fullyQualifiedName metadata = name)
             catalog of
        Some (key, metadata) \<Rightarrow> Some (fullyQualifiedName metadata)
      | None \<Rightarrow> None)"
proof (induction catalog)
  case Nil
  show ?case by simp
next
  case (Cons e es)
  obtain key md where e: "e = (key, md)" by (cases e)
  from Cons.prems e have k: "key \<noteq> name" and m: "map_of es name = None"
    by (auto split: if_splits)
  from Cons.IH [OF m] e k show ?case by auto
qed

text \<open>
  C8, as the code has it. Resolution returns the fully qualified name of the entry under the
  exact key if there is one; otherwise that of the first entry, in the order of the catalog,
  whose table name is the bare form of the identifier or whose fully qualified name is the
  identifier itself; otherwise the identifier unchanged.
\<close>

theorem resolveTableName_policy:
  "resolveTableName name (Some catalog) =
     (case map_of catalog name of
        Some metadata \<Rightarrow> fullyQualifiedName metadata
      | None \<Rightarrow>
          (case find (\<lambda>(key, metadata).
                   tableName metadata = bareName name \<or> fullyQualifiedName metadata = name)
                  catalog of
             Some (key, metadata) \<Rightarrow> fullyQualifiedName metadata
           | None \<Rightarrow> name))"
  by (auto simp: resolveTableName_def resolveLoop_find tableWithoutSchema_bare
      split: option.splits)

text \<open>
  The claim as stated fails where an earlier entry has the identifier as its fully qualified
  name and another table name: the search stops there, and a later entry with the bare name
  is not reached.
\<close>

theorem resolveTableName_policy_counterexample:
  "resolveTableName ''dbo.my.table'' (Some dottedCatalog) = ''dbo.my.table'' \<and>
   resolvePolicy ''dbo.my.table'' dottedCatalog = ''public.table''"
  by code_simp

theorem resolveTableName_policy_witness:
  "resolveTableName ''app.users'' (Some [(''u'', plainEntry ''users'' ''public.users'')]) =
     ''public.users''"
  using resolveTableName_policy [of "''app.users''" "[(''u'', plainEntry ''users'' ''public.users'')]"]
  by (simp add: bareName_def plainEntry_def)

subsection \<open>The convenience entry point\<close>

lemma simple_options_literal:
  "list_all literalKeyword
     (effectiveKeywords
        \<lparr>knownTables = arg, filterCTEs = flag, customKeywords = [], keywords' = None\<rparr>)"
  by (rule effectiveKeywords_defaults) simp_all

lemma simple_options_literalS:
  "list_all literalKeyword
     (effectiveKeywordsS
        \<lparr>knownNames = arg, filterCTEsS = flag, customKeywordsS = [], databaseType = None,
         keywordsS = None\<rparr>)"
  by (rule effectiveKeywordsS_defaults) simp_all

text \<open>
  C9. In both variants \<^verbatim>\<open>getTableNamesSimple\<close> returns \<open>realTables\<close> of the extraction with the
  catalog and classification enabled when a catalog is given, and \<open>allTables\<close> of the extraction
  with no options when none is given; these extractions always give a result.
\<close>

theorem getTableNamesSimple_result:
  "(\<exists>r. extractTableNames sql
           \<lparr>knownTables = Some catalog, filterCTEs = True, customKeywords = [],
            keywords' = None\<rparr> = Inr r \<and>
        getTableNamesSimple sql (Some catalog) = Inr (realTables r)) \<and>
   (\<exists>r. extractTableNames sql noOptions = Inr r \<and>
        getTableNamesSimple sql None = Inr (allTables r)) \<and>
   (\<exists>r. extractTableNamesS sql
           \<lparr>knownNames = Some known, filterCTEsS = True, customKeywordsS = [],
            databaseType = None, keywordsS = None\<rparr> = Inr r \<and>
        getTableNamesSimpleS sql (Some known) = Inr (realTables r)) \<and>
   (\<exists>r. extractTableNamesS sql
           \<lparr>knownNames = None, filterCTEsS = False, customKeywordsS = [],
            databaseType = None, keywordsS = None\<rparr> = Inr r \<and>
        getTableNamesSimpleS sql None = Inr (allTables r))"
proof -
  have 1: "\<exists>r. extractTableNames sql
           \<lparr>knownTables = Some catalog, filterCTEs = True, customKeywords = [],
            keywords' = None\<rparr> = Inr r \<and>
        getTableNamesSimple sql (Some catalog) = Inr (realTables r)"
    using simple_options_literal [of "Some catalog" True]
    by (simp add: getTableNamesSimple_def extractTableNames_cases)
  have 2: "\<exists>r. extractTableNames sql noOptions = Inr r \<and>
        getTableNamesSimple sql None = Inr (allTables r)"
    using simple_options_literal [of None False]
    by (simp add: getTableNamesSimple_def extractTableNames_cases noOptions_def)
  have 3: "\<exists>r. extractTableNamesS sql
           \<lparr>knownNames = Some known, filterCTEsS = True, customKeywordsS = [],
            databaseType = None, keywordsS = None\<rparr> = Inr r \<and>
        getTableNamesSimpleS sql (Some known) = Inr (realTables r)"
    using simple_options_literalS [of "Some known" True]
    by (simp add: getTableNamesSimpleS_def extractTableNamesS_cases)
  have 4: "\<exists>r. extractTableNamesS sql
           \<lparr>knownNames = None, filterCTEsS = False, customKeywordsS = [],
            databaseType = None, keywordsS = None\<rparr> = Inr r \<and>
        getTableNamesSimpleS sql None = Inr (allTables r)"
    using simple_options_literalS [of None False]
    by (simp add: getTableNamesSimpleS_def extractTableNamesS_cases)
  from 1 2 3 4 show ?thesis by blast
qed

text \<open>
  C10. In both variants \<^verbatim>\<open>getTableNamesSimple\<close> with a catalog that is present and empty
  returns the empty list, whatever the query.
\<close>

theorem getTableNamesSimple_empty_catalog:
  "getTableNamesSimple sql (Some []) = Inr [] \<and> getTableNamesSimpleS sql (Some []) = Inr []"
  using simple_options_literal [of "Some []" True] simple_options_literalS [of "Some []" True]
  by (simp add: getTableNamesSimple_def extractTableNames_cases classifyTables_def
      getTableNamesSimpleS_def extractTableNamesS_cases classifyNames_def
      isKnownTable_def isKnownName_def)

theorem getTableNamesSimple_empty_catalog_witness:
  "getTableNamesSimple ''SELECT * FROM users'' (Some []) = Inr [] \<and>
   getTableNamesSimple ''SELECT * FROM users'' None = Inr [''users'']"
proof -
  have "getTableNamesSimple ''SELECT * FROM users'' None = Inr [''users'']" by code_simp
  with getTableNamesSimple_empty_catalog [of "''SELECT * FROM users''"] show ?thesis by simp
qed

subsection \<open>Order and uniqueness of the result\<close>

lemma scanLoop_capturedNames:
  "scanLoop alts resolve s extracted = foldl setAdd extracted (capturedNames alts resolve s)"
proof (induction alts resolve s extracted rule: scanLoop.induct)
  case (1 alts resolve s extracted)
  show ?case
  proof (cases "regexExec alts s")
    case None
    then show ?thesis
      by (simp add: scanLoop.simps [of alts resolve s] capturedNames.simps [of alts resolve s])
  next
    case (Some m)
    obtain a m0 ident rest where m: "m = (a, m0, ident, rest)" by (cases m)
    show ?thesis
    proof (cases "ident \<noteq> []")
      case False
      with Some m "1.IH"(3) [OF Some m [symmetric] refl refl] show ?thesis
        by (simp add: scanLoop.simps [of alts resolve s] capturedNames.simps [of alts resolve s])
    next
      case True
      show ?thesis
      proof (cases "skipsMatch alts m0 rest")
        case sk: True
        with Some m True "1.IH"(1) [OF Some m [symmetric] refl refl True sk] show ?thesis
          by (simp add: scanLoop.simps [of alts resolve s] capturedNames.simps [of alts resolve s])
      next
        case sk: False
        with Some m True "1.IH"(2) [OF Some m [symmetric] refl refl True sk] show ?thesis
          by (simp add: scanLoop.simps [of alts resolve s] capturedNames.simps [of alts resolve s])
      qed
    qed
  qed
qed

lemma firstIndex_append:
  "firstIndex (xs @ ys) x = (if x \<in> set xs then firstIndex xs x else length xs + firstIndex ys x)"
  by (induction xs) (auto simp: firstIndex_def)

lemma firstIndex_less_length: "x \<in> set xs \<Longrightarrow> firstIndex xs x < length xs"
  by (induction xs) (auto simp: firstIndex_def)

lemma firstIndex_Cons: "firstIndex (a # xs) x = (if x = a then 0 else Suc (firstIndex xs x))"
  by (auto simp: firstIndex_def)

lemma firstIndex_repeat:
  assumes "a \<in> set acc"
  shows "(firstIndex (acc @ a # xs) x < firstIndex (acc @ a # xs) y) =
         (firstIndex (acc @ xs) x < firstIndex (acc @ xs) y)"
proof -
  have ne: "z \<notin> set acc \<Longrightarrow> z \<noteq> a" for z using assms by auto
  show ?thesis
    using firstIndex_less_length [of x acc] firstIndex_less_length [of y acc]
    by (auto simp: firstIndex_append firstIndex_Cons dest: ne)
qed

lemma firstIndex_foldl_setAdd:
  "(firstIndex (foldl setAdd acc xs) x < firstIndex (foldl setAdd acc xs) y) =
   (firstIndex (acc @ xs) x < firstIndex (acc @ xs) y)"
proof (induction xs arbitrary: acc)
  case Nil
  show ?case by simp
next
  case (Cons a xs)
  show ?case
  proof (cases "a \<in> set acc")
    case True
    with Cons [of acc] show ?thesis by (simp add: setAdd_def firstIndex_repeat)
  next
    case False
    with Cons [of "acc @ [a]"] show ?thesis by (simp add: setAdd_def)
  qed
qed

lemma allTables_classifyTables: "allTables (classifyTables tables filtering catalog) = tables"
  by (cases catalog) (simp_all add: classifyTables_def)

text \<open>
  C2. Whatever names are added to the set, in whatever order, the list made of the set has no
  duplicate, holds exactly the names added, and orders them by first addition. So \<open>allTables\<close>
  has no duplicate, holds exactly the captured (resolved) names, and orders them by first
  capture: \<open>x\<close> stands before \<open>y\<close> in \<open>allTables\<close> exactly when the first capture of \<open>x\<close> comes
  before the first capture of \<open>y\<close>; a repeated capture changes nothing. The model gives no
  result only for a keyword list that is not literal.
\<close>

theorem allTables_first_occurrence_order:
  "(let all = foldl setAdd [] names
    in distinct all \<and> set all = set names \<and>
       (\<forall>x y. (firstIndex all x < firstIndex all y) = (firstIndex names x < firstIndex names y)))
   \<and>
   (let captured =
          capturedNames (patternAlternatives (effectiveKeywords options))
            (\<lambda>name. resolveTableName name (knownTables options))
            (removeCommentsAndStrings sql)
    in case extractTableNames sql options of
         Inl failure \<Rightarrow> \<not> list_all literalKeyword (effectiveKeywords options)
       | Inr r \<Rightarrow>
           distinct (allTables r) \<and> set (allTables r) = set captured \<and>
           (\<forall>x y. (firstIndex (allTables r) x < firstIndex (allTables r) y) =
                  (firstIndex captured x < firstIndex captured y)))"
proof -
  have gen: "distinct (foldl setAdd [] ns) \<and> set (foldl setAdd [] ns) = set ns \<and>
       (\<forall>x y. (firstIndex (foldl setAdd [] ns) x < firstIndex (foldl setAdd [] ns) y) =
              (firstIndex ns x < firstIndex ns y))" for ns
    using distinct_foldl_setAdd [of "[]" ns] set_foldl_setAdd [of "[]" ns]
      firstIndex_foldl_setAdd [of "[]" ns]
    by simp
  let ?captured = "capturedNames (patternAlternatives (effectiveKeywords options))
            (\<lambda>name. resolveTableName name (knownTables options))
            (removeCommentsAndStrings sql)"
  have ext: "case extractTableNames sql options of
         Inl failure \<Rightarrow> \<not> list_all literalKeyword (effectiveKeywords options)
       | Inr r \<Rightarrow>
           distinct (allTables r) \<and> set (allTables r) = set ?captured \<and>
           (\<forall>x y. (firstIndex (allTables r) x < firstIndex (allTables r) y) =
                  (firstIndex ?captured x < firstIndex ?captured y))"
  proof (cases "list_all literalKeyword (effectiveKeywords options)")
    case False
    then show ?thesis by (simp add: extractTableNames_cases)
  next
    case True
    with gen [of ?captured] show ?thesis
      by (simp add: extractTableNames_cases allTables_classifyTables scanLoop_capturedNames)
  qed
  from gen [of names] ext show ?thesis unfolding Let_def by (rule conjI)
qed

theorem allTables_first_occurrence_order_witness:
  "capturedNames defaultAlternatives (\<lambda>name. resolveTableName name None) ''FROM b JOIN a JOIN b'' =
     [''b'', ''a'', ''b''] \<and>
   extractTableNames ''FROM b JOIN a JOIN b'' noOptions =
     Inr \<lparr>allTables = [''b'', ''a''], realTables = [''b'', ''a''], filteredCTEs = []\<rparr> \<and>
   distinct [''b'', ''a''] \<and>
   firstIndex [''b'', ''a''] ''b'' < firstIndex [''b'', ''a''] ''a''"
proof -
  let ?q = "''FROM b JOIN a JOIN b''"
  have c: "capturedNames defaultAlternatives (\<lambda>name. resolveTableName name None) ?q =
      [''b'', ''a'', ''b'']" by code_simp
  have s: "removeCommentsAndStrings ?q = ?q" by code_simp
  have f: "firstIndex [''b'', ''a'', ''b''] ''b'' < firstIndex [''b'', ''a'', ''b''] ''a''"
    by code_simp
  have a: "extractTableNames ?q noOptions =
      Inr \<lparr>allTables = [''b'', ''a''], realTables = [''b'', ''a''], filteredCTEs = []\<rparr>"
    by code_simp
  have k: "effectiveKeywords noOptions = buildKeywords None defaultSqlKeywords_default []"
    by (simp add: effectiveKeywords_def noOptions_def)
  have n: "knownTables noOptions = None" by (simp add: noOptions_def)
  from allTables_first_occurrence_order [of "[]" noOptions ?q]
  have "distinct [''b'', ''a''] \<and>
    (firstIndex [''b'', ''a''] ''b'' < firstIndex [''b'', ''a''] ''a'') =
    (firstIndex [''b'', ''a'', ''b''] ''b'' < firstIndex [''b'', ''a'', ''b''] ''a'')"
    using c s by (simp add: Let_def a k n defaultAlternatives_def [symmetric])
  with f c a show ?thesis by simp
qed

subsection \<open>Scrubbing twice\<close>

lemma includesStr_Cons: "includesStr s n \<Longrightarrow> includesStr (c # s) n"
  by simp

lemma not_includes_tail: "\<not> includesStr (c # s) n \<Longrightarrow> \<not> includesStr s n"
  by simp

lemma not_includes_pair:
  "\<not> includesStr (c # d # s) [a, b] \<Longrightarrow> \<not> (c = a \<and> d = b)"
  by auto


























subsection \<open>Function calls after a keyword\<close>
















































end
